theory Spec2Isabelle
  imports Main "HOL-Library.Multiset"
begin

section \<open>Python values, errors and containers\<close>

text \<open>
  The parsers of \<^verbatim>\<open>file_parser.py\<close> build plain Python values: dictionaries with
  string keys, strings, integers and lists. Objects handed over by the decoding libraries
  (image handles, byte blobs, floating point cells) are opaque and kept as \<open>PObj\<close>.
  A dictionary is an association list in insertion order; looking a key up is \<open>map_of\<close>.
\<close>

datatype py_error = KeyError | TypeError | IndexError | AttributeError | LibraryError string

datatype 'o pyval =
    PStr string
  | PInt int
  | PList "'o pyval list"
  | PDict "(string \<times> 'o pyval) list"
  | PObj 'o

text \<open>\<^verbatim>\<open>d[k] = v\<close>: an existing key keeps its position, a new key goes to the end.\<close>

fun dict_set :: "(string \<times> 'v) list \<Rightarrow> string \<Rightarrow> 'v \<Rightarrow> (string \<times> 'v) list" where
  "dict_set [] k v = [(k, v)]"
| "dict_set ((k', v') # d) k v =
     (if k' = k then (k, v) # d else (k', v') # dict_set d k v)"

text \<open>
  A \<^verbatim>\<open>for\<close> loop over a list whose body may raise: the state is threaded through the
  iterations and the first exception ends the loop.
\<close>

fun for_each :: "('s \<Rightarrow> 'a \<Rightarrow> 'e + 's) \<Rightarrow> 's \<Rightarrow> 'a list \<Rightarrow> 'e + 's" where
  "for_each body s [] = Inr s"
| "for_each body s (x # xs) =
     (case body s x of Inl e \<Rightarrow> Inl e | Inr s' \<Rightarrow> for_each body s' xs)"

text \<open>
  \<^verbatim>\<open>s.split(sep)\<close> with a non-empty separator: the string is scanned from the left,
  every non-overlapping occurrence of the separator ends a piece, and the rest after the
  last occurrence is the last piece. The result is never the empty list.
\<close>

function py_split :: "string \<Rightarrow> string \<Rightarrow> string \<Rightarrow> string list" where
  "py_split sep cur s =
     (if s = [] then [cur]
      else if sep \<noteq> [] \<and> take (length sep) s = sep
           then cur # py_split sep [] (drop (length sep) s)
      else py_split sep (cur @ [hd s]) (tl s))"
  by pat_completeness auto
termination
  by (relation "measure (\<lambda>(sep, cur, s). length s)") auto

declare py_split.simps [simp del]

definition str_split :: "string \<Rightarrow> string \<Rightarrow> string list" where
  "str_split s sep = py_split sep [] s"

definition newline :: string where
  "newline = [CHR 0x0A]"

text \<open>\<^verbatim>\<open>s.startswith(p)\<close>\<close>

definition startswith :: "string \<Rightarrow> string \<Rightarrow> bool" where
  "startswith s p \<longleftrightarrow> take (length p) s = p"

section \<open>The chunk dictionaries\<close>

definition paragraph_chunk :: "string \<Rightarrow> int \<Rightarrow> 'o pyval" where
  "paragraph_chunk text n =
     PDict [(''type'', PStr ''paragraph''), (''text'', PStr text), (''order'', PInt n)]"

definition table_chunk :: "'o pyval list \<Rightarrow> 'o pyval list list \<Rightarrow> int \<Rightarrow> 'o pyval" where
  "table_chunk headers data n =
     PDict [(''type'', PStr ''table''), (''headers'', PList headers),
            (''data'', PList (map PList data)), (''order'', PInt n)]"

definition image_chunk :: "'o \<Rightarrow> int \<Rightarrow> 'o pyval" where
  "image_chunk img n =
     PDict [(''type'', PStr ''image''), (''image'', PObj img), (''order'', PInt n)]"

text \<open>\<^verbatim>\<open>x[k]\<close> for a string key: only a dictionary can be subscripted by a string.\<close>

fun getitem :: "'o pyval \<Rightarrow> string \<Rightarrow> py_error + 'o pyval" where
  "getitem (PDict d) k = (case map_of d k of None \<Rightarrow> Inl KeyError | Some v \<Rightarrow> Inr v)"
| "getitem _ k = Inl TypeError"

text \<open>\<^verbatim>\<open>k in x\<close> for a chunk \<open>x\<close> that is a dictionary; other chunks carry no keys.\<close>

fun has_key :: "'o pyval \<Rightarrow> string \<Rightarrow> bool" where
  "has_key (PDict d) k = (map_of d k \<noteq> None)"
| "has_key _ k = False"

section \<open>Sequencing: \<^verbatim>\<open>sorted(self.chunks, key=lambda x: x["order"])\<close>\<close>

text \<open>
  The key function is applied to every chunk first, in list order, so a chunk without an
  \<^verbatim>\<open>order\<close> key raises before anything is compared. Every extractor stores
  \<^verbatim>\<open>len(self.chunks)\<close> under \<^verbatim>\<open>order\<close>, an integer; an \<^verbatim>\<open>order\<close> value of another
  type never reaches the sort, and this model reports it as \<open>TypeError\<close> rather than
  modelling Python's comparison of arbitrary values.
\<close>

definition order_key :: "'o pyval \<Rightarrow> py_error + int" where
  "order_key x =
     (case getitem x ''order'' of
        Inl e \<Rightarrow> Inl e
      | Inr (PInt n) \<Rightarrow> Inr n
      | Inr _ \<Rightarrow> Inl TypeError)"

definition order_keys :: "'o pyval list \<Rightarrow> py_error + int list" where
  "order_keys cs =
     for_each (\<lambda>ks c. case order_key c of Inl e \<Rightarrow> Inl e | Inr k \<Rightarrow> Inr (ks @ [k])) [] cs"

text \<open>
  \<^verbatim>\<open>sorted\<close> is stable. On the decorated list (key, chunk) it takes the elements from
  left to right and puts each one behind every element already placed whose key is not
  greater, which is what the binary insertion of the list sort does on a short list.
\<close>

fun insort_right :: "('a \<Rightarrow> int) \<Rightarrow> 'a \<Rightarrow> 'a list \<Rightarrow> 'a list" where
  "insort_right key x [] = [x]"
| "insort_right key x (y # ys) =
     (if key x < key y then x # y # ys else y # insort_right key x ys)"

definition py_sorted :: "('a \<Rightarrow> int) \<Rightarrow> 'a list \<Rightarrow> 'a list" where
  "py_sorted key xs = foldl (\<lambda>acc x. insort_right key x acc) [] xs"

definition sequence_chunks :: "'o pyval list \<Rightarrow> py_error + 'o pyval list" where
  "sequence_chunks cs =
     (case order_keys cs of
        Inl e \<Rightarrow> Inl e
      | Inr ks \<Rightarrow> Inr (map snd (py_sorted fst (zip ks cs))))"

text \<open>The \<^verbatim>\<open>order\<close> of a chunk that has one (0 otherwise), to state orderings.\<close>

definition order_of :: "'o pyval \<Rightarrow> int" where
  "order_of c = (case order_key c of Inl e \<Rightarrow> 0 | Inr k \<Rightarrow> k)"

text \<open>
  The chunk at every position \<open>i\<close> of the list has \<^verbatim>\<open>order\<close> \<open>i\<close>: what appending with
  \<^verbatim>\<open>"order": len(self.chunks)\<close> keeps true of \<^verbatim>\<open>self.chunks\<close>.
\<close>

definition indexed :: "'o pyval list \<Rightarrow> bool" where
  "indexed cs \<longleftrightarrow> map order_key cs = map (\<lambda>i. Inr (int i)) [0..<length cs]"

section \<open>\<^verbatim>\<open>PDFParser\<close>\<close>

text \<open>
  A page of the reader gives its text (\<^verbatim>\<open>extract_text()\<close>). The table detection and the
  image extraction are calls into the decoding libraries, and either may raise.
  \<^verbatim>\<open>tabula.read_pdf\<close> is a parameter \<open>read_pdf\<close> of the model: it gets the page text and
  returns the detected tables or raises. \<^verbatim>\<open>page.extract_images()\<close> is given by what the
  call evaluates to on that page, a list of images or an exception. Of a detected table
  the parser reads the column labels and \<^verbatim>\<open>values.tolist()\<close>, the rows.
\<close>

record 'o pdf_page =
  extract_text :: string
  extract_images :: "py_error + 'o list"

record 'o pdf_table =
  tbl_columns :: "'o pyval list"
  tbl_values :: "'o pyval list list"

definition pdf_paragraphs :: "'o pyval list \<Rightarrow> string list \<Rightarrow> 'o pyval list" where
  "pdf_paragraphs chunks paragraphs =
     foldl (\<lambda>cs paragraph. cs @ [paragraph_chunk paragraph (int (length cs))])
       chunks paragraphs"

definition pdf_tables :: "'o pyval list \<Rightarrow> 'o pdf_table list \<Rightarrow> 'o pyval list" where
  "pdf_tables chunks tables =
     foldl (\<lambda>cs t. cs @ [table_chunk (tbl_columns t) (tbl_values t) (int (length cs))])
       chunks tables"

definition pdf_images :: "'o pyval list \<Rightarrow> 'o list \<Rightarrow> 'o pyval list" where
  "pdf_images chunks images =
     foldl (\<lambda>cs img. cs @ [image_chunk img (int (length cs))]) chunks images"

text \<open>One iteration of \<^verbatim>\<open>for page in self.reader.pages\<close>.\<close>

definition pdf_page_step ::
  "(string \<Rightarrow> py_error + 'o pdf_table list) \<Rightarrow> 'o pyval list \<Rightarrow> 'o pdf_page
     \<Rightarrow> py_error + 'o pyval list" where
  "pdf_page_step read_pdf chunks page =
     (let text = extract_text page;
          paragraphs = str_split text (newline @ newline);
          chunks1 = pdf_paragraphs chunks paragraphs
      in case read_pdf (extract_text page) of
           Inl e \<Rightarrow> Inl e
         | Inr tables \<Rightarrow>
             (let chunks2 = pdf_tables chunks1 tables
              in case extract_images page of
                   Inl e \<Rightarrow> Inl e
                 | Inr images \<Rightarrow> Inr (pdf_images chunks2 images)))"

definition pdf_pages ::
  "(string \<Rightarrow> py_error + 'o pdf_table list) \<Rightarrow> 'o pyval list \<Rightarrow> 'o pdf_page list
     \<Rightarrow> py_error + 'o pyval list" where
  "pdf_pages read_pdf chunks pages = for_each (pdf_page_step read_pdf) chunks pages"

definition PDFParser_parse_file ::
  "(string \<Rightarrow> py_error + 'o pdf_table list) \<Rightarrow> 'o pdf_page list \<Rightarrow> py_error + 'o pyval list" where
  "PDFParser_parse_file read_pdf pages =
     (case pdf_pages read_pdf [] pages of
        Inl e \<Rightarrow> Inl e
      | Inr chunks \<Rightarrow> sequence_chunks chunks)"

section \<open>\<^verbatim>\<open>DocxParser\<close>\<close>

text \<open>
  The document gives its paragraphs (text and style name), its tables (rows of cell texts)
  and its inline shapes. \<^verbatim>\<open>img._inline.docx.blob\<close> is an attribute chain into the
  decoding library: each inline shape is given by what that chain evaluates to, a blob
  or an exception.
\<close>

record docx_paragraph =
  para_text :: string
  para_style_name :: string

record 'o docx_document =
  doc_paragraphs :: "docx_paragraph list"
  doc_tables :: "string list list list"
  doc_inline_shapes :: "(py_error + 'o) list"

definition docx_paragraph_chunk :: "docx_paragraph \<Rightarrow> 'o pyval" where
  "docx_paragraph_chunk para =
     (if startswith (para_style_name para) ''List''
      then PDict [(''type'', PStr ''list''), (''data'', PStr (para_text para))]
      else PStr (para_text para))"

definition docx_table_data :: "string list list \<Rightarrow> 'o pyval" where
  "docx_table_data table =
     PList (foldl (\<lambda>table_data row.
                     table_data @ [PList (foldl (\<lambda>row_data cell. row_data @ [PStr cell]) [] row)])
              [] table)"

definition docx_image_step :: "'o pyval list \<Rightarrow> py_error + 'o \<Rightarrow> py_error + 'o pyval list" where
  "docx_image_step chunks img =
     (case img of
        Inl e \<Rightarrow> Inl e
      | Inr blob \<Rightarrow> Inr (chunks @ [PDict [(''type'', PStr ''image''), (''data'', PObj blob)]]))"

definition DocxParser_parse_file :: "'o docx_document \<Rightarrow> py_error + 'o pyval list" where
  "DocxParser_parse_file doc =
     (let chunks1 = foldl (\<lambda>cs para. cs @ [docx_paragraph_chunk para]) [] (doc_paragraphs doc);
          chunks2 = foldl (\<lambda>cs table. cs @ [docx_table_data table]) chunks1 (doc_tables doc)
      in for_each docx_image_step chunks2 (doc_inline_shapes doc))"

section \<open>\<^verbatim>\<open>PPTParser\<close>\<close>

text \<open>
  A shape gives \<^verbatim>\<open>has_text_frame\<close>, the texts of the paragraphs of its text frame, its
  \<^verbatim>\<open>shape_type\<close> (an integer code or \<^verbatim>\<open>None\<close>), the rows of its table as cell texts and
  its image. A presentation is the list of its slides, a slide the list of its shapes.
\<close>

record 'o ppt_shape =
  has_text_frame :: bool
  text_frame_paragraphs :: "string list"
  shape_type :: "int option"
  table_rows :: "string list list"
  shape_image :: 'o

definition frame_text :: "string list \<Rightarrow> string" where
  "frame_text paragraphs = foldl (\<lambda>text paragraph. text @ paragraph @ newline) [] paragraphs"

text \<open>
  \<^verbatim>\<open>table.rows\<close> is a collection of the decoding library, not a list. Its subscript
  compares the index with 0 and with the number of rows: for an integer it gives that row
  or raises \<^verbatim>\<open>IndexError\<close>; a slice, as in \<^verbatim>\<open>table.rows[1:]\<close>, cannot be compared with 0,
  which raises \<^verbatim>\<open>TypeError\<close>.
\<close>

definition rows_getitem :: "'r list \<Rightarrow> int \<Rightarrow> py_error + 'r" where
  "rows_getitem rows idx =
     (if idx < 0 \<or> int (length rows) \<le> idx then Inl IndexError else Inr (rows ! nat idx))"

definition rows_getslice :: "'r list \<Rightarrow> int \<Rightarrow> py_error + 'r list" where
  "rows_getslice rows start = Inl TypeError"

definition ppt_shape_step :: "'o pyval list \<Rightarrow> 'o ppt_shape \<Rightarrow> py_error + 'o pyval list" where
  "ppt_shape_step chunks shape =
     (if has_text_frame shape then
        Inr (chunks @ [paragraph_chunk (frame_text (text_frame_paragraphs shape))
                         (int (length chunks))])
      else if shape_type shape = Some 19 then
        (case rows_getitem (table_rows shape) 0 of
           Inl e \<Rightarrow> Inl e
         | Inr row0 \<Rightarrow>
             (case rows_getslice (table_rows shape) 1 of
                Inl e \<Rightarrow> Inl e
              | Inr rows \<Rightarrow>
                  Inr (chunks @ [table_chunk (map PStr row0) (map (map PStr) rows)
                                   (int (length chunks))])))
      else if shape_type shape = Some 13 then
        Inr (chunks @ [image_chunk (shape_image shape) (int (length chunks))])
      else Inr chunks)"

definition ppt_slide_step :: "'o pyval list \<Rightarrow> 'o ppt_shape list \<Rightarrow> py_error + 'o pyval list" where
  "ppt_slide_step chunks slide = for_each ppt_shape_step chunks slide"

definition PPTParser_parse_file :: "'o ppt_shape list list \<Rightarrow> py_error + 'o pyval list" where
  "PPTParser_parse_file slides =
     (case for_each ppt_slide_step [] slides of
        Inl e \<Rightarrow> Inl e
      | Inr chunks \<Rightarrow> sequence_chunks chunks)"

text \<open>
  Spelled after the specification: the texts of the paragraphs with a newline between
  each two of them.
\<close>

fun separated_by_newline :: "string list \<Rightarrow> string" where
  "separated_by_newline [] = []"
| "separated_by_newline [p] = p"
| "separated_by_newline (p # q # ps) = p @ newline @ separated_by_newline (q # ps)"

section \<open>\<^verbatim>\<open>CSVParser\<close> and \<^verbatim>\<open>TSVParser\<close>\<close>

text \<open>
  The data frame read by \<^verbatim>\<open>pd.read_csv\<close> is a list of labelled columns.
  \<^verbatim>\<open>df[i]\<close> is the column with label \<open>i\<close> when exactly one column has that label;
  with a repeated label it is a frame, which has no \<^verbatim>\<open>tolist\<close>. (\<^verbatim>\<open>read_csv\<close> renames
  repeated header names, and rejects a file without any column.)
  The values stored in the result are column value lists, the frame itself and its
  column index.
\<close>

type_synonym 'c dataframe = "(string \<times> 'c list) list"

datatype 'c tab_value = Values "'c list" | Frame "'c dataframe" | Index "string list"

definition df_columns :: "'c dataframe \<Rightarrow> string list" where
  "df_columns df = map fst df"

definition df_tolist :: "'c dataframe \<Rightarrow> string \<Rightarrow> py_error + 'c list" where
  "df_tolist df i =
     (case filter (\<lambda>col. fst col = i) df of
        [] \<Rightarrow> Inl KeyError
      | [col] \<Rightarrow> Inr (snd col)
      | _ \<Rightarrow> Inl AttributeError)"

definition csv_column_step ::
  "'c dataframe \<Rightarrow> (string \<times> 'c tab_value) list \<Rightarrow> string
     \<Rightarrow> py_error + (string \<times> 'c tab_value) list" where
  "csv_column_step df chunks i =
     (case df_tolist df i of
        Inl e \<Rightarrow> Inl e
      | Inr vs \<Rightarrow> Inr (dict_set chunks i (Values vs)))"

definition CSVParser_parse_file :: "'c dataframe \<Rightarrow> py_error + (string \<times> 'c tab_value) list" where
  "CSVParser_parse_file df =
     (case for_each (csv_column_step df) [] (df_columns df) of
        Inl e \<Rightarrow> Inl e
      | Inr chunks \<Rightarrow>
          Inr (dict_set (dict_set chunks ''dataframe'' (Frame df))
                 ''headers'' (Index (df_columns df))))"

definition tsv_column_step ::
  "'c dataframe \<Rightarrow> (string \<times> 'c tab_value) list \<Rightarrow> string
     \<Rightarrow> py_error + (string \<times> 'c tab_value) list" where
  "tsv_column_step df chunks i =
     (case df_tolist df i of
        Inl e \<Rightarrow> Inl e
      | Inr vs \<Rightarrow>
          Inr (dict_set (dict_set (dict_set chunks i (Values vs)) ''dataframe'' (Frame df))
                 ''headers'' (Index (df_columns df))))"

definition TSVParser_parse_file :: "'c dataframe \<Rightarrow> py_error + (string \<times> 'c tab_value) list" where
  "TSVParser_parse_file df = for_each (tsv_column_step df) [] (df_columns df)"

text \<open>A mapping after \<^verbatim>\<open>dataframe\<close> and \<^verbatim>\<open>headers\<close> have been written into it.\<close>

definition reserved_set :: "'c dataframe \<Rightarrow> (string \<rightharpoonup> 'c tab_value) \<Rightarrow> (string \<rightharpoonup> 'c tab_value)" where
  "reserved_set df m = m(''dataframe'' \<mapsto> Frame df, ''headers'' \<mapsto> Index (df_columns df))"

section \<open>Example inputs\<close>

text \<open>Three chunks, two of them with the same \<^verbatim>\<open>order\<close>.\<close>

definition tied_chunks :: "nat pyval list" where
  "tied_chunks = [paragraph_chunk ''a'' 1, paragraph_chunk ''b'' 0, paragraph_chunk ''c'' 1]"

text \<open>
  Three pages whose image extraction returns, with a table detection that finds one
  table on every page. Then pages as the installed libraries treat them: the image
  extraction raises on every page and the table detection raises on every text.
\<close>

definition three_pages :: "nat pdf_page list" where
  "three_pages =
     [\<lparr>extract_text = ''one'', extract_images = Inr [7]\<rparr>,
      \<lparr>extract_text = ''two'', extract_images = Inr []\<rparr>,
      \<lparr>extract_text = ''three'', extract_images = Inr []\<rparr>]"

definition all_tables_found :: "string \<Rightarrow> py_error + nat pdf_table list" where
  "all_tables_found text = Inr [\<lparr>tbl_columns = [PStr ''h''], tbl_values = [[PInt 1]]\<rparr>]"

definition detection_raises :: "string \<Rightarrow> py_error + nat pdf_table list" where
  "detection_raises text = Inl (LibraryError ''tabula'')"

definition empty_page :: "nat pdf_page" where
  "empty_page = \<lparr>extract_text = [], extract_images = Inl AttributeError\<rparr>"

definition second_page :: "nat pdf_page" where
  "second_page = \<lparr>extract_text = ''two'', extract_images = Inl AttributeError\<rparr>"

definition unread_pages :: "nat pdf_page list" where
  "unread_pages =
     [\<lparr>extract_text = ''one'', extract_images = Inl AttributeError\<rparr>,
      \<lparr>extract_text = ''two'', extract_images = Inl AttributeError\<rparr>,
      \<lparr>extract_text = ''three'', extract_images = Inl AttributeError\<rparr>]"

text \<open>Documents with a list paragraph and a paragraph of style \<^verbatim>\<open>Normal\<close>.\<close>

definition list_and_normal :: "nat docx_document" where
  "list_and_normal =
     \<lparr>doc_paragraphs = [\<lparr>para_text = ''a'', para_style_name = ''List Bullet''\<rparr>,
                        \<lparr>para_text = ''b'', para_style_name = ''Normal''\<rparr>],
      doc_tables = [[[''x'', ''y'']]],
      doc_inline_shapes = [Inr 5]\<rparr>"

definition normal_only :: "nat docx_document" where
  "normal_only =
     \<lparr>doc_paragraphs = [\<lparr>para_text = ''hello'', para_style_name = ''Normal''\<rparr>],
      doc_tables = [],
      doc_inline_shapes = []\<rparr>"

text \<open>
  Shapes: with a text frame and the type code of a table or of a picture, a text box, a
  table of three rows, a picture.
\<close>

definition text_and_table_code :: "nat ppt_shape" where
  "text_and_table_code =
     \<lparr>has_text_frame = True, text_frame_paragraphs = [''a''], shape_type = Some 19,
      table_rows = [[''h''], [''d'']], shape_image = 0\<rparr>"

definition text_and_picture_code :: "nat ppt_shape" where
  "text_and_picture_code =
     \<lparr>has_text_frame = True, text_frame_paragraphs = [''p'', ''q''], shape_type = Some 13,
      table_rows = [], shape_image = 4\<rparr>"

definition text_box :: "nat ppt_shape" where
  "text_box =
     \<lparr>has_text_frame = True, text_frame_paragraphs = [''a''], shape_type = Some 17,
      table_rows = [], shape_image = 0\<rparr>"

definition grid_table :: "nat ppt_shape" where
  "grid_table =
     \<lparr>has_text_frame = False, text_frame_paragraphs = [], shape_type = Some 19,
      table_rows = [[''h1'', ''h2''], [''a'', ''b''], [''c'', ''d'']], shape_image = 0\<rparr>"

definition picture :: "nat ppt_shape" where
  "picture =
     \<lparr>has_text_frame = False, text_frame_paragraphs = [], shape_type = Some 13,
      table_rows = [], shape_image = 9\<rparr>"

text \<open>Data frames: one with a column named \<^verbatim>\<open>headers\<close>, one without reserved names.\<close>

definition headers_column_frame :: "int dataframe" where
  "headers_column_frame = [(''id'', [1, 2]), (''headers'', [10, 20])]"

definition two_column_frame :: "int dataframe" where
  "two_column_frame = [(''a'', [1, 2]), (''b'', [3, 4])]"

section \<open>Loops\<close>

lemma foldl_snoc_map: "foldl (\<lambda>acc x. acc @ [f x]) acc xs = acc @ map f xs"
  by (induction xs arbitrary: acc) simp_all

lemma for_each_append:
  "for_each body s (xs @ ys) =
     (case for_each body s xs of Inl e \<Rightarrow> Inl e | Inr s' \<Rightarrow> for_each body s' ys)"
  by (induction xs arbitrary: s) (simp_all split: sum.splits)

lemma for_each_invariant:
  assumes step: "\<And>s x s'. P s \<Longrightarrow> x \<in> set xs \<Longrightarrow> body s x = Inr s' \<Longrightarrow> P s'"
    and "P s" and "for_each body s xs = Inr t"
  shows "P t"
  using assms
proof (induction xs arbitrary: s)
  case Nil
  then show ?case by simp
next
  case (Cons x xs)
  from Cons.prems(3) obtain s' where b: "body s x = Inr s'" and r: "for_each body s' xs = Inr t"
    by (auto split: sum.splits)
  have p: "P s'"
    by (rule Cons.prems(1)[OF Cons.prems(2) _ b]) simp
  show ?case
  proof (rule Cons.IH[OF _ p r])
    fix u y u'
    assume "P u" "y \<in> set xs" "body u y = Inr u'"
    then show "P u'"
      by (intro Cons.prems(1)[of u y u']) simp_all
  qed
qed

section \<open>The stable sort\<close>

lemma mset_insort_right: "mset (insort_right key x ys) = add_mset x (mset ys)"
  by (induction ys) simp_all

lemma set_insort_right: "set (insort_right key x ys) = insert x (set ys)"
  by (induction ys) auto

lemma sorted_insort_right:
  "sorted (map key ys) \<Longrightarrow> sorted (map key (insort_right key x ys))"
  by (induction ys) (auto simp: set_insort_right)

lemma filter_insort_right:
  "sorted (map key ys) \<Longrightarrow>
   filter (\<lambda>y. key y = k) (insort_right key x ys) =
   filter (\<lambda>y. key y = k) ys @ (if key x = k then [x] else [])"
proof (induction ys)
  case Nil
  then show ?case by simp
next
  case (Cons y ys)
  show ?case
  proof (cases "key x < key y")
    case True
    with Cons.prems have "\<forall>z\<in>set (y # ys). key x < key z" by auto
    then have "key x = k \<Longrightarrow> filter (\<lambda>y. key y = k) (y # ys) = []"
      by (auto simp: filter_empty_conv)
    with True show ?thesis by auto
  next
    case False
    with Cons show ?thesis by simp
  qed
qed

lemma insort_right_snoc:
  "\<forall>y\<in>set ys. key y \<le> key x \<Longrightarrow> insort_right key x ys = ys @ [x]"
  by (induction ys) auto

lemma insort_right_map:
  "insort_right fst (g x, x) (map (\<lambda>c. (g c, c)) ys) = map (\<lambda>c. (g c, c)) (insort_right g x ys)"
  by (induction ys) simp_all

lemma foldl_insort_right:
  assumes "sorted (map key acc)"
  shows "sorted (map key (foldl (\<lambda>acc x. insort_right key x acc) acc xs))
       \<and> mset (foldl (\<lambda>acc x. insort_right key x acc) acc xs) = mset acc + mset xs
       \<and> filter (\<lambda>y. key y = k) (foldl (\<lambda>acc x. insort_right key x acc) acc xs)
           = filter (\<lambda>y. key y = k) acc @ filter (\<lambda>y. key y = k) xs"
  using assms
proof (induction xs arbitrary: acc)
  case Nil
  then show ?case by simp
next
  case (Cons x xs)
  have s: "sorted (map key (insort_right key x acc))"
    using Cons.prems by (rule sorted_insort_right)
  show ?case
    using Cons.IH[OF s] Cons.prems
    by (simp add: mset_insort_right filter_insort_right)
qed

lemma sorted_py_sorted: "sorted (map key (py_sorted key xs))"
  using foldl_insort_right[of key "[]" xs] by (simp add: py_sorted_def)

lemma mset_py_sorted: "mset (py_sorted key xs) = mset xs"
  using foldl_insort_right[of key "[]" xs] by (simp add: py_sorted_def)

lemma filter_py_sorted:
  "filter (\<lambda>y. key y = k) (py_sorted key xs) = filter (\<lambda>y. key y = k) xs"
  using foldl_insort_right[where key=key and acc="[]" and k=k and xs=xs] by (simp add: py_sorted_def)

lemma foldl_insort_right_sorted:
  "sorted (map key (acc @ xs)) \<Longrightarrow> foldl (\<lambda>acc x. insort_right key x acc) acc xs = acc @ xs"
proof (induction xs arbitrary: acc)
  case Nil
  then show ?case by simp
next
  case (Cons x xs)
  from Cons.prems have "\<forall>y\<in>set acc. key y \<le> key x"
    by (auto simp: sorted_append)
  then have "insort_right key x acc = acc @ [x]" by (rule insort_right_snoc)
  with Cons show ?case by simp
qed

lemma py_sorted_sorted: "sorted (map key xs) \<Longrightarrow> py_sorted key xs = xs"
  using foldl_insort_right_sorted[of key "[]" xs] by (simp add: py_sorted_def)

lemma foldl_insort_right_map:
  "foldl (\<lambda>acc x. insort_right fst x acc) (map (\<lambda>c. (g c, c)) acc) (map (\<lambda>c. (g c, c)) xs)
   = map (\<lambda>c. (g c, c)) (foldl (\<lambda>acc x. insort_right g x acc) acc xs)"
  by (induction xs arbitrary: acc) (simp_all add: insort_right_map)

lemma py_sorted_decorated:
  "map snd (py_sorted fst (map (\<lambda>c. (g c, c)) xs)) = py_sorted g xs"
  using foldl_insort_right_map[of g "[]" xs] by (simp add: py_sorted_def comp_def)

section \<open>The sequencing step\<close>

lemma order_of_eq: "order_key c = Inr k \<Longrightarrow> order_of c = k"
  by (simp add: order_of_def)

lemma order_keys_acc:
  "\<forall>c\<in>set cs. \<exists>k. order_key c = Inr k \<Longrightarrow>
   for_each (\<lambda>ks c. case order_key c of Inl e \<Rightarrow> Inl e | Inr k \<Rightarrow> Inr (ks @ [k])) ks cs
     = Inr (ks @ map order_of cs)"
  by (induction cs arbitrary: ks) (auto simp: order_of_eq)

lemma order_keys_ok:
  "\<forall>c\<in>set cs. \<exists>k. order_key c = Inr k \<Longrightarrow> order_keys cs = Inr (map order_of cs)"
  using order_keys_acc[of cs "[]"] by (simp add: order_keys_def)

lemma order_keys_acc_Inr:
  "for_each (\<lambda>ks c. case order_key c of Inl e \<Rightarrow> Inl e | Inr k \<Rightarrow> Inr (ks @ [k])) ks cs = Inr r
   \<Longrightarrow> \<forall>c\<in>set cs. \<exists>k. order_key c = Inr k"
  by (induction cs arbitrary: ks) (auto split: sum.splits)

lemma sequence_chunks_ok:
  assumes "\<forall>c\<in>set cs. \<exists>k. order_key c = Inr k"
  shows "sequence_chunks cs = Inr (py_sorted order_of cs)"
proof -
  have "zip (map order_of cs) cs = map (\<lambda>c. (order_of c, c)) cs"
    by (induction cs) simp_all
  then show ?thesis
    by (simp add: sequence_chunks_def order_keys_ok[OF assms] py_sorted_decorated)
qed

lemma sequence_chunks_Inr:
  "sequence_chunks cs = Inr out \<Longrightarrow> \<forall>c\<in>set cs. \<exists>k. order_key c = Inr k"
  unfolding sequence_chunks_def order_keys_def
  by (auto split: sum.splits dest: order_keys_acc_Inr)

lemma order_key_chunks [simp]:
  "order_key (paragraph_chunk t n) = Inr n"
  "order_key (table_chunk h d n) = Inr n"
  "order_key (image_chunk i n) = Inr n"
  by (simp_all add: order_key_def paragraph_chunk_def table_chunk_def image_chunk_def)

text \<open>
  C6. The sequencing step applied to chunks that each carry an integer \<^verbatim>\<open>order\<close> returns
  a list: the same chunks, ascending by \<^verbatim>\<open>order\<close>, and for every value \<open>k\<close> the chunks
  with \<^verbatim>\<open>order\<close> \<open>k\<close> come in the order they had in the input.
\<close>

theorem sequence_chunks_stable:
  assumes "\<forall>c\<in>set cs. \<exists>k. order_key c = Inr k"
  shows "\<exists>out. sequence_chunks cs = Inr out
           \<and> sorted (map order_of out)
           \<and> mset out = mset cs
           \<and> (\<forall>k. filter (\<lambda>c. order_of c = k) out = filter (\<lambda>c. order_of c = k) cs)"
  by (simp add: sequence_chunks_ok[OF assms] sorted_py_sorted mset_py_sorted filter_py_sorted)

theorem sequence_chunks_stable_witness:
  "map order_key tied_chunks = [Inr 1, Inr 0, Inr 1]
   \<and> sequence_chunks tied_chunks
       = Inr [paragraph_chunk ''b'' 0, paragraph_chunk ''a'' 1, paragraph_chunk ''c'' 1]
   \<and> (\<exists>out. sequence_chunks tied_chunks = Inr out
           \<and> sorted (map order_of out)
           \<and> mset out = mset tied_chunks
           \<and> (\<forall>k. filter (\<lambda>c. order_of c = k) out = filter (\<lambda>c. order_of c = k) tied_chunks))"
proof -
  have m: "map order_key tied_chunks = [Inr 1, Inr 0, Inr 1]"
    by (simp add: tied_chunks_def)
  then have h: "\<forall>c\<in>set tied_chunks. \<exists>k. order_key c = Inr k"
    by (simp add: tied_chunks_def)
  have v: "sequence_chunks tied_chunks
       = Inr [paragraph_chunk ''b'' 0, paragraph_chunk ''a'' 1, paragraph_chunk ''c'' (1::int) :: nat pyval]"
    by (simp add: sequence_chunks_def order_keys_def tied_chunks_def py_sorted_def)
  show ?thesis using m v sequence_chunks_stable[OF h] by blast
qed

section \<open>Chunks numbered by position\<close>

lemma indexed_Nil [simp]: "indexed []"
  by (simp add: indexed_def)

lemma indexed_snoc:
  "indexed cs \<Longrightarrow> order_key c = Inr (int (length cs)) \<Longrightarrow> indexed (cs @ [c])"
  by (simp add: indexed_def)

lemma indexed_nth: "indexed cs \<Longrightarrow> i < length cs \<Longrightarrow> order_key (cs ! i) = Inr (int i)"
proof -
  assume a: "indexed cs" and i: "i < length cs"
  have "order_key (cs ! i) = map order_key cs ! i" using i by simp
  also have "\<dots> = map (\<lambda>i. Inr (int i)) [0..<length cs] ! i"
    using a by (simp add: indexed_def)
  also have "\<dots> = Inr (int i)" using i by simp
  finally show ?thesis .
qed

lemma indexed_keys: "indexed cs \<Longrightarrow> \<forall>c\<in>set cs. \<exists>k. order_key c = Inr k"
  by (auto simp: in_set_conv_nth indexed_nth)

lemma indexed_order_of: "indexed cs \<Longrightarrow> map order_of cs = map int [0..<length cs]"
  by (rule nth_equalityI) (simp_all add: indexed_nth order_of_eq)

lemma sorted_map_int_upt: "sorted (map int [m..<n])"
  by (simp add: sorted_iff_nth_mono)

lemma indexed_sequence_chunks: "indexed cs \<Longrightarrow> sequence_chunks cs = Inr cs"
  by (simp add: sequence_chunks_ok indexed_keys py_sorted_sorted indexed_order_of
      sorted_map_int_upt)

section \<open>Pages of a PDF document\<close>

lemma indexed_pdf_paragraphs: "indexed cs \<Longrightarrow> indexed (pdf_paragraphs cs ps)"
  unfolding pdf_paragraphs_def
  by (induction ps arbitrary: cs) (simp_all add: indexed_snoc)

lemma indexed_pdf_tables: "indexed cs \<Longrightarrow> indexed (pdf_tables cs ts)"
  unfolding pdf_tables_def
  by (induction ts arbitrary: cs) (simp_all add: indexed_snoc)

lemma indexed_pdf_images: "indexed cs \<Longrightarrow> indexed (pdf_images cs imgs)"
  unfolding pdf_images_def
  by (induction imgs arbitrary: cs) (simp_all add: indexed_snoc)

lemma indexed_pdf_page_step:
  "indexed cs \<Longrightarrow> pdf_page_step read_pdf cs p = Inr cs' \<Longrightarrow> indexed cs'"
  by (auto simp: pdf_page_step_def Let_def indexed_pdf_paragraphs indexed_pdf_tables
        indexed_pdf_images split: sum.splits)

lemma indexed_pdf_pages:
  "indexed cs \<Longrightarrow> pdf_pages read_pdf cs pages = Inr cs' \<Longrightarrow> indexed cs'"
  unfolding pdf_pages_def
  by (rule for_each_invariant[where P = indexed and body = "pdf_page_step read_pdf"])
     (auto intro: indexed_pdf_page_step)

lemma PDFParser_parse_file_Inr:
  "PDFParser_parse_file read_pdf pages = Inr cs \<longleftrightarrow> pdf_pages read_pdf [] pages = Inr cs"
proof (cases "pdf_pages read_pdf [] pages")
  case (Inl e)
  then show ?thesis by (simp add: PDFParser_parse_file_def)
next
  case (Inr acc)
  then have "indexed acc" using indexed_pdf_pages[of "[]"] by simp
  with Inr show ?thesis
    by (simp add: PDFParser_parse_file_def indexed_sequence_chunks)
qed

lemma pdf_page_step_detection:
  "pdf_page_step read_pdf cs p = Inr cs' \<Longrightarrow> \<exists>ts. read_pdf (extract_text p) = Inr ts"
  by (cases "read_pdf (extract_text p)") (simp_all add: pdf_page_step_def Let_def)

lemma pdf_pages_detection:
  "pdf_pages read_pdf cs pages = Inr cs' \<Longrightarrow>
   \<forall>p\<in>set pages. \<exists>ts. read_pdf (extract_text p) = Inr ts"
proof (induction pages arbitrary: cs)
  case Nil
  show ?case by simp
next
  case (Cons p pages)
  from Cons.prems obtain cs1 where s: "pdf_page_step read_pdf cs p = Inr cs1"
    and r: "pdf_pages read_pdf cs1 pages = Inr cs'"
    by (cases "pdf_page_step read_pdf cs p") (simp_all add: pdf_pages_def)
  from pdf_page_step_detection[OF s] Cons.IH[OF r] show ?case by simp
qed

lemma pdf_pages_raise:
  assumes "pdf_pages read_pdf chunks before = Inr cs" and "read_pdf (extract_text p) = Inl e"
  shows "pdf_pages read_pdf chunks (before @ p # after) = Inl e"
  using assms by (simp add: pdf_pages_def for_each_append pdf_page_step_def)

lemma str_split_empty: "str_split [] sep = [[]]"
  by (simp add: str_split_def py_split.simps)

text \<open>
  C4 (as the code has it). On a page whose extracted text is empty the paragraph loop
  appends exactly one paragraph chunk, with the empty string as its text: splitting the
  empty string gives one empty piece. After it the page goes through the table detection
  and the image extraction like any other page; the traversal goes on to the next page
  with that chunk in the list when both return, and an exception of either ends the
  extraction.
\<close>

theorem pdf_empty_text_page:
  assumes "extract_text p = []"
  shows "pdf_paragraphs chunks (str_split (extract_text p) (newline @ newline))
           = chunks @ [paragraph_chunk [] (int (length chunks))]
       \<and> pdf_page_step read_pdf chunks p =
           (case read_pdf [] of
              Inl e \<Rightarrow> Inl e
            | Inr tables \<Rightarrow>
                (case extract_images p of
                   Inl e \<Rightarrow> Inl e
                 | Inr images \<Rightarrow>
                     Inr (pdf_images
                            (pdf_tables (chunks @ [paragraph_chunk [] (int (length chunks))])
                               tables)
                            images)))
       \<and> pdf_pages read_pdf chunks (p # ps) =
           (case pdf_page_step read_pdf chunks p of
              Inl e \<Rightarrow> Inl e
            | Inr chunks' \<Rightarrow> pdf_pages read_pdf chunks' ps)"
  using assms
  by (simp add: pdf_page_step_def str_split_empty pdf_paragraphs_def pdf_pages_def
      split: sum.splits)

theorem pdf_empty_text_page_witness:
  "extract_text empty_page = []
   \<and> pdf_paragraphs [paragraph_chunk ''x'' 0]
         (str_split (extract_text empty_page) (newline @ newline))
       = [paragraph_chunk ''x'' 0, paragraph_chunk [] 1 :: nat pyval]
   \<and> pdf_page_step detection_raises [paragraph_chunk ''x'' 0] empty_page
       = Inl (LibraryError ''tabula'')"
proof -
  have a: "extract_text empty_page = []" by (simp add: empty_page_def)
  note t = pdf_empty_text_page[OF a, of "[paragraph_chunk ''x'' 0]" detection_raises "[]"]
  have b: "pdf_paragraphs [paragraph_chunk ''x'' 0]
         (str_split (extract_text empty_page) (newline @ newline))
       = [paragraph_chunk ''x'' 0, paragraph_chunk [] 1 :: nat pyval]"
    using t[THEN conjunct1] by simp
  have c: "pdf_page_step detection_raises [paragraph_chunk ''x'' 0] empty_page
       = Inl (LibraryError ''tabula'')"
    using t[THEN conjunct2, THEN conjunct1] by (simp add: detection_raises_def)
  show ?thesis using a b c by (intro conjI)
qed

theorem pdf_empty_text_page_counterexample:
  "pdf_paragraphs [] (str_split (extract_text empty_page) (newline @ newline))
     = [paragraph_chunk [] 0 :: nat pyval]
   \<and> PDFParser_parse_file detection_raises [empty_page, second_page]
     = Inl (LibraryError ''tabula'')"
  by (simp add: PDFParser_parse_file_def pdf_pages_def pdf_page_step_def str_split_empty
      pdf_paragraphs_def detection_raises_def empty_page_def)

text \<open>
  C2 (as the code has it). Nothing catches an exception of the table detection. When it
  raises on a page, the pages before it having been traversed, the extraction ends with
  that exception; and whenever it raises on some page of the document the extraction
  ends with an exception and returns no chunk of any page.
\<close>

theorem pdf_table_detection_failure:
  "(pdf_pages read_pdf [] before = Inr cs \<and> read_pdf (extract_text p) = Inl e \<longrightarrow>
      PDFParser_parse_file read_pdf (before @ p # after) = Inl e)
   \<and> ((\<exists>p\<in>set pages. \<exists>e. read_pdf (extract_text p) = Inl e) \<longrightarrow>
      (\<exists>e. PDFParser_parse_file read_pdf pages = Inl e))"
proof (intro conjI impI)
  assume "pdf_pages read_pdf [] before = Inr cs \<and> read_pdf (extract_text p) = Inl e"
  then have "pdf_pages read_pdf [] (before @ p # after) = Inl e"
    by (simp add: pdf_pages_raise)
  then show "PDFParser_parse_file read_pdf (before @ p # after) = Inl e"
    by (simp add: PDFParser_parse_file_def)
next
  assume a: "\<exists>p\<in>set pages. \<exists>e. read_pdf (extract_text p) = Inl e"
  show "\<exists>e. PDFParser_parse_file read_pdf pages = Inl e"
  proof (cases "PDFParser_parse_file read_pdf pages")
    case (Inl e)
    then show ?thesis by simp
  next
    case (Inr cs)
    then have "pdf_pages read_pdf [] pages = Inr cs"
      by (simp add: PDFParser_parse_file_Inr)
    from pdf_pages_detection[OF this] a show ?thesis by auto
  qed
qed

theorem pdf_table_detection_failure_witness:
  "pdf_pages detection_raises [] [] = Inr []
   \<and> detection_raises (extract_text (hd unread_pages)) = Inl (LibraryError ''tabula'')
   \<and> PDFParser_parse_file detection_raises ([] @ hd unread_pages # tl unread_pages)
       = Inl (LibraryError ''tabula'')
   \<and> (\<exists>p\<in>set unread_pages. \<exists>e. detection_raises (extract_text p) = Inl e)
   \<and> (\<exists>e. PDFParser_parse_file detection_raises unread_pages = Inl e)"
proof -
  have a: "pdf_pages detection_raises [] [] = Inr ([] :: nat pyval list)"
    by (simp add: pdf_pages_def)
  have b: "detection_raises (extract_text (hd unread_pages)) = Inl (LibraryError ''tabula'')"
    by (simp add: detection_raises_def)
  have c: "\<exists>p\<in>set unread_pages. \<exists>e. detection_raises (extract_text p) = Inl e"
    by (auto simp: detection_raises_def unread_pages_def)
  note t = pdf_table_detection_failure[where read_pdf = detection_raises and before = "[]"
      and cs = "[]" and p = "hd unread_pages" and e = "LibraryError ''tabula''"
      and after = "tl unread_pages" and pages = unread_pages]
  have d: "PDFParser_parse_file detection_raises ([] @ hd unread_pages # tl unread_pages)
       = Inl (LibraryError ''tabula'')"
    using t[THEN conjunct1, THEN mp, OF conjI, OF a b] .
  have e: "\<exists>e. PDFParser_parse_file detection_raises unread_pages = Inl e"
    using t[THEN conjunct2, THEN mp, OF c] .
  show ?thesis using a b c d e by (intro conjI)
qed

theorem pdf_table_detection_failure_counterexample:
  "PDFParser_parse_file detection_raises unread_pages = Inl (LibraryError ''tabula'')"
  by (simp add: PDFParser_parse_file_def pdf_pages_def pdf_page_step_def unread_pages_def
      detection_raises_def)

section \<open>Order keys on the slides\<close>

lemma indexed_ppt_shape_step:
  "indexed cs \<Longrightarrow> ppt_shape_step cs s = Inr cs' \<Longrightarrow> indexed cs'"
  by (auto simp: ppt_shape_step_def rows_getslice_def indexed_snoc
      split: if_splits sum.splits)

lemma indexed_ppt_slide_step:
  "indexed cs \<Longrightarrow> ppt_slide_step cs slide = Inr cs' \<Longrightarrow> indexed cs'"
  unfolding ppt_slide_step_def
  by (rule for_each_invariant[where P = indexed and body = ppt_shape_step])
     (auto intro: indexed_ppt_shape_step)

lemma indexed_ppt_slides:
  "indexed cs \<Longrightarrow> for_each ppt_slide_step cs slides = Inr cs' \<Longrightarrow> indexed cs'"
  by (rule for_each_invariant[where P = indexed and body = ppt_slide_step])
     (auto intro: indexed_ppt_slide_step)

lemma PPTParser_parse_file_Inr:
  "PPTParser_parse_file slides = Inr cs \<longleftrightarrow> for_each ppt_slide_step [] slides = Inr cs"
proof (cases "for_each ppt_slide_step [] slides")
  case (Inl e)
  then show ?thesis by (simp add: PPTParser_parse_file_def)
next
  case (Inr acc)
  then have "indexed acc" using indexed_ppt_slides[of "[]"] by simp
  with Inr show ?thesis
    by (simp add: PPTParser_parse_file_def indexed_sequence_chunks)
qed

section \<open>Chunks of a document\<close>

lemma docx_image_step_Inr:
  "docx_image_step cs sh = Inr cs1 \<longleftrightarrow>
   (\<exists>blob. sh = Inr blob \<and> cs1 = cs @ [PDict [(''type'', PStr ''image''), (''data'', PObj blob)]])"
  by (cases sh) (auto simp: docx_image_step_def)

lemma docx_image_step_prefix:
  "for_each docx_image_step cs shapes = Inr cs' \<Longrightarrow>
   \<exists>blobs. shapes = map Inr blobs
        \<and> cs' = cs @ map (\<lambda>blob. PDict [(''type'', PStr ''image''), (''data'', PObj blob)]) blobs"
proof (induction shapes arbitrary: cs)
  case Nil
  then show ?case by simp
next
  case (Cons sh shapes)
  from Cons.prems obtain cs1 where s1: "docx_image_step cs sh = Inr cs1"
    and r: "for_each docx_image_step cs1 shapes = Inr cs'"
    by (cases "docx_image_step cs sh") simp_all
  from s1 obtain blob where sh: "sh = Inr blob"
    and cs1: "cs1 = cs @ [PDict [(''type'', PStr ''image''), (''data'', PObj blob)]]"
    unfolding docx_image_step_Inr by blast
  from Cons.IH[OF r] obtain blobs where "shapes = map Inr blobs"
    and "cs' = cs1 @ map (\<lambda>blob. PDict [(''type'', PStr ''image''), (''data'', PObj blob)]) blobs"
    by blast
  with sh cs1 have "sh # shapes = map Inr (blob # blobs)
      \<and> cs' = cs @ map (\<lambda>blob. PDict [(''type'', PStr ''image''), (''data'', PObj blob)]) (blob # blobs)"
    by simp
  then show ?case by (rule exI[where x = "blob # blobs"])
qed

lemma DocxParser_parse_file_Inr:
  assumes "DocxParser_parse_file doc = Inr cs"
  shows "\<exists>blobs. doc_inline_shapes doc = map Inr blobs
           \<and> cs = map docx_paragraph_chunk (doc_paragraphs doc)
                  @ map docx_table_data (doc_tables doc)
                  @ map (\<lambda>blob. PDict [(''type'', PStr ''image''), (''data'', PObj blob)]) blobs"
  using docx_image_step_prefix[of "map docx_paragraph_chunk (doc_paragraphs doc)
                  @ map docx_table_data (doc_tables doc)" "doc_inline_shapes doc" cs] assms
  by (simp add: DocxParser_parse_file_def foldl_snoc_map)

lemma docx_no_order [simp]:
  "\<not> has_key (docx_paragraph_chunk para) ''order''"
  "\<not> has_key (docx_table_data t) ''order''"
  by (simp_all add: docx_paragraph_chunk_def docx_table_data_def)

section \<open>Order keys of the extraction results\<close>

lemma order_key_has_key: "order_key c = Inr k \<Longrightarrow> has_key c ''order''"
  by (cases c) (auto simp: order_key_def split: option.splits)

lemma indexed_positions:
  assumes "indexed cs"
  shows "(\<forall>i<length cs. has_key (cs ! i) ''order'' \<and> order_key (cs ! i) = Inr (int i))
       \<and> (\<forall>i. Suc i < length cs \<longrightarrow> order_of (cs ! i) < order_of (cs ! Suc i))"
proof -
  have k: "\<And>i. i < length cs \<Longrightarrow> order_key (cs ! i) = Inr (int i)"
    using assms by (rule indexed_nth)
  then have "\<And>i. i < length cs \<Longrightarrow> has_key (cs ! i) ''order''"
    by (blast intro: order_key_has_key)
  moreover have "\<And>i. Suc i < length cs \<Longrightarrow> order_of (cs ! i) < order_of (cs ! Suc i)"
    using k by (simp add: order_of_eq)
  ultimately show ?thesis using k by blast
qed

text \<open>
  C1 (as the code has it). In a result of the PDF extractor and in a result of the PPTX
  extractor every chunk carries an \<^verbatim>\<open>order\<close> key, the \<^verbatim>\<open>order\<close> of the chunk at
  position \<open>i\<close> is \<open>i\<close>, so adjacent chunks have strictly increasing \<^verbatim>\<open>order\<close>, and the
  result is the list of chunks in the order of their emission: the final sort changes
  nothing. The DOCX extractor has no sequencing step and none of its chunks carries an
  \<^verbatim>\<open>order\<close> key.
\<close>

theorem order_is_position:
  "(PDFParser_parse_file read_pdf pages = Inr cs \<longrightarrow>
      pdf_pages read_pdf [] pages = Inr cs
      \<and> (\<forall>i<length cs. has_key (cs ! i) ''order'' \<and> order_key (cs ! i) = Inr (int i))
      \<and> (\<forall>i. Suc i < length cs \<longrightarrow> order_of (cs ! i) < order_of (cs ! Suc i)))
   \<and> (PPTParser_parse_file slides = Inr ds \<longrightarrow>
      for_each ppt_slide_step [] slides = Inr ds
      \<and> (\<forall>i<length ds. has_key (ds ! i) ''order'' \<and> order_key (ds ! i) = Inr (int i))
      \<and> (\<forall>i. Suc i < length ds \<longrightarrow> order_of (ds ! i) < order_of (ds ! Suc i)))
   \<and> (DocxParser_parse_file doc = Inr es \<longrightarrow> (\<forall>c\<in>set es. \<not> has_key c ''order''))"
proof (intro conjI impI)
  assume a: "PDFParser_parse_file read_pdf pages = Inr cs"
  then show p: "pdf_pages read_pdf [] pages = Inr cs"
    by (simp add: PDFParser_parse_file_Inr)
  then have i: "indexed cs" using indexed_pdf_pages[of "[]"] by simp
  show "\<forall>i<length cs. has_key (cs ! i) ''order'' \<and> order_key (cs ! i) = Inr (int i)"
    using indexed_positions[OF i] by blast
  show "\<forall>i. Suc i < length cs \<longrightarrow> order_of (cs ! i) < order_of (cs ! Suc i)"
    using indexed_positions[OF i] by blast
next
  assume a: "PPTParser_parse_file slides = Inr ds"
  then show p: "for_each ppt_slide_step [] slides = Inr ds"
    by (simp add: PPTParser_parse_file_Inr)
  then have i: "indexed ds" using indexed_ppt_slides[of "[]"] by simp
  show "\<forall>i<length ds. has_key (ds ! i) ''order'' \<and> order_key (ds ! i) = Inr (int i)"
    using indexed_positions[OF i] by blast
  show "\<forall>i. Suc i < length ds \<longrightarrow> order_of (ds ! i) < order_of (ds ! Suc i)"
    using indexed_positions[OF i] by blast
next
  assume "DocxParser_parse_file doc = Inr es"
  from DocxParser_parse_file_Inr[OF this] show "\<forall>c\<in>set es. \<not> has_key c ''order''"
    by auto
qed

lemma three_pages_chunks:
  "PDFParser_parse_file all_tables_found three_pages =
     Inr [paragraph_chunk ''one'' 0, table_chunk [PStr ''h''] [[PInt 1]] 1, image_chunk 7 2,
          paragraph_chunk ''two'' 3, table_chunk [PStr ''h''] [[PInt 1]] 4,
          paragraph_chunk ''three'' 5, table_chunk [PStr ''h''] [[PInt 1]] 6]"
  by (simp add: PDFParser_parse_file_Inr pdf_pages_def pdf_page_step_def three_pages_def
      all_tables_found_def str_split_def py_split.simps newline_def
      pdf_paragraphs_def pdf_tables_def pdf_images_def)

lemma one_slide_chunks:
  "PPTParser_parse_file [[text_box], [picture]] =
     Inr [paragraph_chunk [CHR ''a'', CHR 0x0A] 0, image_chunk 9 1]"
  by (simp add: PPTParser_parse_file_Inr ppt_slide_step_def ppt_shape_step_def
      text_box_def picture_def frame_text_def newline_def)

lemma list_and_normal_chunks:
  "DocxParser_parse_file list_and_normal =
     Inr [PDict [(''type'', PStr ''list''), (''data'', PStr ''a'')], PStr ''b'',
          PList [PList [PStr ''x'', PStr ''y'']],
          PDict [(''type'', PStr ''image''), (''data'', PObj 5)]]"
  by (simp add: DocxParser_parse_file_def list_and_normal_def docx_paragraph_chunk_def
      docx_table_data_def docx_image_step_def startswith_def)

theorem order_is_position_witness:
  "PDFParser_parse_file all_tables_found three_pages =
     Inr [paragraph_chunk ''one'' 0, table_chunk [PStr ''h''] [[PInt 1]] 1, image_chunk 7 2,
          paragraph_chunk ''two'' 3, table_chunk [PStr ''h''] [[PInt 1]] 4,
          paragraph_chunk ''three'' 5, table_chunk [PStr ''h''] [[PInt 1]] 6]
   \<and> order_key (paragraph_chunk ''two'' 3 :: nat pyval) = Inr (int 3)
   \<and> PPTParser_parse_file [[text_box], [picture]] =
     Inr [paragraph_chunk [CHR ''a'', CHR 0x0A] 0, image_chunk 9 1]
   \<and> order_of (paragraph_chunk [CHR ''a'', CHR 0x0A] 0 :: nat pyval)
       < order_of (image_chunk 9 1 :: nat pyval)
   \<and> DocxParser_parse_file list_and_normal =
     Inr [PDict [(''type'', PStr ''list''), (''data'', PStr ''a'')], PStr ''b'',
          PList [PList [PStr ''x'', PStr ''y'']],
          PDict [(''type'', PStr ''image''), (''data'', PObj 5)]]
   \<and> \<not> has_key (PStr ''b'' :: nat pyval) ''order''"
proof -
  let ?cs = "[paragraph_chunk ''one'' 0, table_chunk [PStr ''h''] [[PInt 1]] 1, image_chunk 7 2,
          paragraph_chunk ''two'' 3, table_chunk [PStr ''h''] [[PInt 1]] 4,
          paragraph_chunk ''three'' 5, table_chunk [PStr ''h''] [[PInt 1]] 6] :: nat pyval list"
  let ?ds = "[paragraph_chunk [CHR ''a'', CHR 0x0A] 0, image_chunk 9 1] :: nat pyval list"
  let ?es = "[PDict [(''type'', PStr ''list''), (''data'', PStr ''a'')], PStr ''b'',
          PList [PList [PStr ''x'', PStr ''y'']],
          PDict [(''type'', PStr ''image''), (''data'', PObj 5)]] :: nat pyval list"
  note t = order_is_position[where read_pdf = all_tables_found and pages = three_pages
      and cs = ?cs and slides = "[[text_box], [picture]]" and ds = ?ds
      and doc = list_and_normal and es = ?es]
  note t1 = t[THEN conjunct1, THEN mp, OF three_pages_chunks]
  note t2 = t[THEN conjunct2, THEN conjunct1, THEN mp, OF one_slide_chunks]
  note t3 = t[THEN conjunct2, THEN conjunct2, THEN mp, OF list_and_normal_chunks]
  have a: "order_key (paragraph_chunk ''two'' 3 :: nat pyval) = Inr (int 3)"
    using t1[THEN conjunct2, THEN conjunct1, THEN spec, of 3] by simp
  have b: "order_of (paragraph_chunk [CHR ''a'', CHR 0x0A] 0 :: nat pyval)
       < order_of (image_chunk 9 1 :: nat pyval)"
    using t2[THEN conjunct2, THEN conjunct2, THEN spec, of 0] by simp
  have c: "\<not> has_key (PStr ''b'' :: nat pyval) ''order''"
    using t3[THEN bspec, of "PStr ''b''"] by simp
  show ?thesis
    using a b c three_pages_chunks one_slide_chunks list_and_normal_chunks
    by (intro conjI)
qed

theorem order_is_position_counterexample:
  "DocxParser_parse_file normal_only = Inr [PStr ''hello'']
   \<and> \<not> has_key (PStr ''hello'' :: nat pyval) ''order''"
  by (simp add: DocxParser_parse_file_def normal_only_def docx_paragraph_chunk_def
      startswith_def)

section \<open>Paragraphs of a document\<close>

lemma docx_image_step_blob:
  "docx_image_step cs (Inr blob) =
     Inr (cs @ [PDict [(''type'', PStr ''image''), (''data'', PObj blob)]])"
  by (simp add: docx_image_step_def)

lemma docx_images_total:
  "for_each docx_image_step cs (map Inr blobs) =
     Inr (cs @ map (\<lambda>blob. PDict [(''type'', PStr ''image''), (''data'', PObj blob)]) blobs)"
  by (induction blobs arbitrary: cs) (simp_all add: docx_image_step_blob)

text \<open>
  C3 (as the code has it). The extraction returns when every inline shape gives its blob.
  In its result the chunk of a paragraph whose style name starts with \<^verbatim>\<open>List\<close> is a
  dictionary with \<^verbatim>\<open>type\<close> \<^verbatim>\<open>list\<close> and the text under \<^verbatim>\<open>data\<close>; the chunk of any other
  paragraph is the text itself, a string, which carries no \<^verbatim>\<open>type\<close> at all.
\<close>

theorem docx_paragraph_chunks:
  "(doc_inline_shapes doc = map Inr blobs \<longrightarrow> (\<exists>cs. DocxParser_parse_file doc = Inr cs))
   \<and> (DocxParser_parse_file doc = Inr cs \<and> i < length (doc_paragraphs doc) \<longrightarrow>
        (startswith (para_style_name (doc_paragraphs doc ! i)) ''List'' \<longrightarrow>
           cs ! i = PDict [(''type'', PStr ''list''),
                           (''data'', PStr (para_text (doc_paragraphs doc ! i)))])
        \<and> (\<not> startswith (para_style_name (doc_paragraphs doc ! i)) ''List'' \<longrightarrow>
           cs ! i = PStr (para_text (doc_paragraphs doc ! i))
           \<and> \<not> has_key (cs ! i) ''type''))"
proof (intro conjI impI)
  assume "doc_inline_shapes doc = map Inr blobs"
  then show "\<exists>cs. DocxParser_parse_file doc = Inr cs"
    by (simp add: DocxParser_parse_file_def docx_images_total)
next
  assume a: "DocxParser_parse_file doc = Inr cs \<and> i < length (doc_paragraphs doc)"
  with DocxParser_parse_file_Inr[of doc cs]
  have n: "cs ! i = docx_paragraph_chunk (doc_paragraphs doc ! i)"
    by (auto simp: nth_append)
  {
    assume "startswith (para_style_name (doc_paragraphs doc ! i)) ''List''"
    with n show "cs ! i = PDict [(''type'', PStr ''list''),
                           (''data'', PStr (para_text (doc_paragraphs doc ! i)))]"
      by (simp add: docx_paragraph_chunk_def)
  }
  {
    assume "\<not> startswith (para_style_name (doc_paragraphs doc ! i)) ''List''"
    with n show "cs ! i = PStr (para_text (doc_paragraphs doc ! i))"
      and "\<not> has_key (cs ! i) ''type''"
      by (simp_all add: docx_paragraph_chunk_def)
  }
qed

theorem docx_paragraph_chunks_witness:
  "doc_inline_shapes list_and_normal = map Inr [5]
   \<and> DocxParser_parse_file list_and_normal =
     Inr [PDict [(''type'', PStr ''list''), (''data'', PStr ''a'')], PStr ''b'',
          PList [PList [PStr ''x'', PStr ''y'']],
          PDict [(''type'', PStr ''image''), (''data'', PObj 5)]]
   \<and> startswith (para_style_name (doc_paragraphs list_and_normal ! 0)) ''List''
   \<and> \<not> startswith (para_style_name (doc_paragraphs list_and_normal ! 1)) ''List''
   \<and> (\<exists>cs. DocxParser_parse_file list_and_normal = Inr cs
         \<and> cs ! 0 = PDict [(''type'', PStr ''list''), (''data'', PStr ''a'')]
         \<and> cs ! 1 = PStr ''b'' \<and> \<not> has_key (cs ! 1) ''type'')"
proof -
  let ?es = "[PDict [(''type'', PStr ''list''), (''data'', PStr ''a'')], PStr ''b'',
          PList [PList [PStr ''x'', PStr ''y'']],
          PDict [(''type'', PStr ''image''), (''data'', PObj 5)]] :: nat pyval list"
  have s: "doc_inline_shapes list_and_normal = map Inr [5]"
    by (simp add: list_and_normal_def)
  have l0: "startswith (para_style_name (doc_paragraphs list_and_normal ! 0)) ''List''"
    by (simp add: list_and_normal_def startswith_def)
  have l1: "\<not> startswith (para_style_name (doc_paragraphs list_and_normal ! 1)) ''List''"
    by (simp add: list_and_normal_def startswith_def)
  have n0: "DocxParser_parse_file list_and_normal = Inr ?es
            \<and> 0 < length (doc_paragraphs list_and_normal)"
    by (simp add: list_and_normal_chunks) (simp add: list_and_normal_def)
  have n1: "DocxParser_parse_file list_and_normal = Inr ?es
            \<and> 1 < length (doc_paragraphs list_and_normal)"
    by (simp add: list_and_normal_chunks) (simp add: list_and_normal_def)
  note t0 = docx_paragraph_chunks[where doc = list_and_normal and blobs = "[5]" and cs = ?es
      and i = 0]
  note t1 = docx_paragraph_chunks[where doc = list_and_normal and blobs = "[5]" and cs = ?es
      and i = 1]
  have e: "\<exists>cs. DocxParser_parse_file list_and_normal = Inr cs"
    using t0[THEN conjunct1, THEN mp, OF s] .
  have a: "?es ! 0 = PDict [(''type'', PStr ''list''), (''data'', PStr ''a'')]"
    using t0[THEN conjunct2, THEN mp, OF n0, THEN conjunct1, THEN mp, OF l0]
    by (simp add: list_and_normal_def)
  have b: "?es ! 1 = PStr ''b'' \<and> \<not> has_key (?es ! 1) ''type''"
    using t1[THEN conjunct2, THEN mp, OF n1, THEN conjunct2, THEN mp, OF l1]
    by (simp add: list_and_normal_def)
  show ?thesis
    using s l0 l1 e a b list_and_normal_chunks by simp
qed

theorem docx_paragraph_chunks_counterexample:
  "DocxParser_parse_file normal_only = Inr [PStr ''hello'']
   \<and> getitem (PStr ''hello'' :: nat pyval) ''type'' = Inl TypeError"
  by (simp add: DocxParser_parse_file_def normal_only_def docx_paragraph_chunk_def
      startswith_def)

section \<open>Shapes of a slide\<close>

text \<open>
  C7. A shape with a text frame gives a paragraph chunk whatever its type code is, also
  when the code is that of a table (19) or of a picture (13): the text frame is tested
  first and the other tests are its \<^verbatim>\<open>elif\<close> branches.
\<close>

theorem ppt_text_frame_first:
  assumes "has_text_frame shape"
    and "shape_type shape = Some 19 \<or> shape_type shape = Some 13"
  shows "ppt_shape_step chunks shape =
           Inr (chunks @ [paragraph_chunk (frame_text (text_frame_paragraphs shape))
                            (int (length chunks))])
       \<and> getitem (paragraph_chunk (frame_text (text_frame_paragraphs shape))
                    (int (length chunks)) :: 'o pyval) ''type'' = Inr (PStr ''paragraph'')"
  using assms(1) by (simp add: ppt_shape_step_def paragraph_chunk_def)

theorem ppt_text_frame_first_witness:
  "has_text_frame text_and_table_code \<and> shape_type text_and_table_code = Some 19
   \<and> ppt_shape_step [] text_and_table_code = Inr [paragraph_chunk [CHR ''a'', CHR 0x0A] 0]
   \<and> has_text_frame text_and_picture_code \<and> shape_type text_and_picture_code = Some 13
   \<and> ppt_shape_step [] text_and_picture_code
       = Inr [paragraph_chunk [CHR ''p'', CHR 0x0A, CHR ''q'', CHR 0x0A] 0]"
proof -
  have a: "has_text_frame text_and_table_code" and b: "shape_type text_and_table_code = Some 19"
    by (simp_all add: text_and_table_code_def)
  have c: "has_text_frame text_and_picture_code"
    and d: "shape_type text_and_picture_code = Some 13"
    by (simp_all add: text_and_picture_code_def)
  have e: "frame_text (text_frame_paragraphs text_and_table_code) = [CHR ''a'', CHR 0x0A]"
    by (simp add: text_and_table_code_def frame_text_def newline_def)
  have f: "frame_text (text_frame_paragraphs text_and_picture_code)
             = [CHR ''p'', CHR 0x0A, CHR ''q'', CHR 0x0A]"
    by (simp add: text_and_picture_code_def frame_text_def newline_def)
  from b have b': "shape_type text_and_table_code = Some 19 \<or> shape_type text_and_table_code = Some 13"
    by simp
  from d have d': "shape_type text_and_picture_code = Some 19 \<or> shape_type text_and_picture_code = Some 13"
    by simp
  show ?thesis
    using a b c d
      ppt_text_frame_first[OF a b', of "[]", unfolded e, THEN conjunct1]
      ppt_text_frame_first[OF c d', of "[]", unfolded f, THEN conjunct1]
    by simp
qed

lemma foldl_append_concat:
  "foldl (\<lambda>text paragraph. text @ paragraph @ sep) acc ps = acc @ concat (map (\<lambda>p. p @ sep) ps)"
  by (induction ps arbitrary: acc) simp_all

lemma frame_text_concat: "frame_text ps = concat (map (\<lambda>p. p @ newline) ps)"
  by (simp add: frame_text_def foldl_append_concat)

lemma frame_text_separated:
  "ps \<noteq> [] \<Longrightarrow> frame_text ps = separated_by_newline ps @ newline"
  by (induction ps rule: separated_by_newline.induct) (simp_all add: frame_text_concat)

text \<open>
  C9 (as the code has it). The text of the paragraph chunk of a text frame is the text of
  each paragraph of the frame followed by a newline: for a frame with paragraphs it is
  the paragraph texts separated by newlines and one more newline at the end, and for a
  frame without paragraphs it is the empty string.
\<close>

theorem ppt_paragraph_text:
  assumes "has_text_frame shape"
  shows "\<exists>text. ppt_shape_step chunks shape =
                  Inr (chunks @ [paragraph_chunk text (int (length chunks))])
           \<and> text = concat (map (\<lambda>p. p @ newline) (text_frame_paragraphs shape))
           \<and> (text_frame_paragraphs shape \<noteq> [] \<longrightarrow>
                text = separated_by_newline (text_frame_paragraphs shape) @ newline)
           \<and> (text_frame_paragraphs shape = [] \<longrightarrow> text = [])"
proof -
  let ?ps = "text_frame_paragraphs shape"
  have "ppt_shape_step chunks shape =
          Inr (chunks @ [paragraph_chunk (frame_text ?ps) (int (length chunks))])"
    using assms by (simp add: ppt_shape_step_def)
  moreover have "frame_text ?ps = concat (map (\<lambda>p. p @ newline) ?ps)"
    by (rule frame_text_concat)
  moreover have "?ps \<noteq> [] \<longrightarrow> frame_text ?ps = separated_by_newline ?ps @ newline"
    by (simp add: frame_text_separated)
  moreover have "?ps = [] \<longrightarrow> frame_text ?ps = []"
    by (simp add: frame_text_def)
  ultimately show ?thesis
    by (intro exI[where x = "frame_text ?ps"]) simp
qed

theorem ppt_paragraph_text_witness:
  "has_text_frame text_and_picture_code
   \<and> text_frame_paragraphs text_and_picture_code = [''p'', ''q'']
   \<and> (\<exists>text. ppt_shape_step [] text_and_picture_code = Inr [paragraph_chunk text 0]
          \<and> text = [CHR ''p'', CHR 0x0A, CHR ''q'', CHR 0x0A]
          \<and> text = separated_by_newline [''p'', ''q''] @ newline)"
proof -
  have a: "has_text_frame text_and_picture_code"
    and b: "text_frame_paragraphs text_and_picture_code = [''p'', ''q'']"
    by (simp_all add: text_and_picture_code_def)
  show ?thesis
    using a b ppt_paragraph_text[OF a, of "[]"]
    by (simp add: newline_def)
qed

theorem ppt_paragraph_text_counterexample:
  "ppt_shape_step [] text_and_table_code = Inr [paragraph_chunk [CHR ''a'', CHR 0x0A] 0]
   \<and> separated_by_newline (text_frame_paragraphs text_and_table_code) = [CHR ''a'']"
  by (simp add: ppt_shape_step_def text_and_table_code_def frame_text_def newline_def)

text \<open>
  C8 (where the code departs from it). A table shape gives no table chunk. The headers
  are the cell texts of \<^verbatim>\<open>table.rows[0]\<close>, and the data rows are asked for as
  \<^verbatim>\<open>table.rows[1:]\<close>, a slice, which the row collection does not take: for a table
  with \<open>N \<ge> 1\<close> rows that subscript raises \<^verbatim>\<open>TypeError\<close>, and the extraction of a
  presentation ends there with no chunk returned.
\<close>

theorem ppt_table_slice_raises:
  assumes "\<not> has_text_frame shape" and "shape_type shape = Some 19"
    and "table_rows shape \<noteq> []"
  shows "ppt_shape_step chunks shape = Inl TypeError
       \<and> ppt_slide_step chunks (shape # shapes) = Inl TypeError
       \<and> PPTParser_parse_file ((shape # shapes) # slides) = Inl TypeError"
proof -
  from assms(3) have "rows_getitem (table_rows shape) 0 = Inr (table_rows shape ! 0)"
    by (simp add: rows_getitem_def)
  with assms(1,2) have s: "ppt_shape_step chunks shape = Inl TypeError" for chunks
    by (simp add: ppt_shape_step_def rows_getslice_def)
  then have l: "ppt_slide_step chunks (shape # shapes) = Inl TypeError" for chunks
    by (simp add: ppt_slide_step_def)
  then have "PPTParser_parse_file ((shape # shapes) # slides) = Inl TypeError"
    by (simp add: PPTParser_parse_file_def)
  with s l show ?thesis by simp
qed

theorem ppt_table_slice_raises_witness:
  "\<not> has_text_frame grid_table \<and> shape_type grid_table = Some 19
   \<and> table_rows grid_table = [[''h1'', ''h2''], [''a'', ''b''], [''c'', ''d'']]
   \<and> ppt_shape_step [] grid_table = Inl TypeError
   \<and> PPTParser_parse_file [[grid_table, picture]] = Inl TypeError"
proof -
  have a: "\<not> has_text_frame grid_table" and b: "shape_type grid_table = Some 19"
    and c: "table_rows grid_table = [[''h1'', ''h2''], [''a'', ''b''], [''c'', ''d'']]"
    by (simp_all add: grid_table_def)
  from c have n: "table_rows grid_table \<noteq> []" by simp
  note t = ppt_table_slice_raises[OF a b n, of "[]" "[picture]" "[]"]
  show ?thesis
    using a b c t[THEN conjunct1] t[THEN conjunct2, THEN conjunct2] by (intro conjI)
qed

section \<open>Tabular results\<close>

lemma map_of_dict_set: "map_of (dict_set d k v) = (map_of d)(k \<mapsto> v)"
  by (induction d k v rule: dict_set.induct) auto

lemma filter_distinct_key:
  "distinct (map fst df) \<Longrightarrow> (i, vs) \<in> set df \<Longrightarrow> filter (\<lambda>col. fst col = i) df = [(i, vs)]"
proof (induction df)
  case Nil
  then show ?case by simp
next
  case (Cons a df)
  show ?case
  proof (cases "fst a = i")
    case True
    with Cons.prems have "i \<notin> fst ` set df" by auto
    then have "filter (\<lambda>col. fst col = i) df = []"
      by (auto simp: filter_empty_conv)
    moreover from \<open>i \<notin> fst ` set df\<close> Cons.prems(2) have "a = (i, vs)"
      by force
    ultimately show ?thesis by simp
  next
    case False
    with Cons show ?thesis by auto
  qed
qed

lemma df_tolist_distinct:
  "distinct (df_columns df) \<Longrightarrow> (i, vs) \<in> set df \<Longrightarrow> df_tolist df i = Inr vs"
  by (simp add: df_tolist_def df_columns_def filter_distinct_key)

lemma csv_column_step_simps:
  "df_tolist df i = Inl e \<Longrightarrow> csv_column_step df c i = Inl e"
  "df_tolist df i = Inr vs \<Longrightarrow> csv_column_step df c i = Inr (dict_set c i (Values vs))"
  by (simp_all add: csv_column_step_def)

lemma tsv_column_step_simps:
  "df_tolist df i = Inl e \<Longrightarrow> tsv_column_step df t i = Inl e"
  "df_tolist df i = Inr vs \<Longrightarrow>
     tsv_column_step df t i =
       Inr (dict_set (dict_set (dict_set t i (Values vs)) ''dataframe'' (Frame df))
              ''headers'' (Index (df_columns df)))"
  by (simp_all add: tsv_column_step_def)

lemma reserved_set_step:
  "reserved_set df ((reserved_set df m)(i \<mapsto> v)) = reserved_set df (m(i \<mapsto> v))"
  by (auto simp: reserved_set_def fun_eq_iff)

lemma columns_related:
  assumes "map_of t = reserved_set df (map_of c)"
  shows "rel_sum (=) (\<lambda>c' t'. map_of t' = reserved_set df (map_of c'))
           (for_each (csv_column_step df) c cols) (for_each (tsv_column_step df) t cols)"
  using assms
proof (induction cols arbitrary: c t)
  case Nil
  then show ?case by simp
next
  case (Cons i cols)
  show ?case
  proof (cases "df_tolist df i")
    case (Inl e)
    then show ?thesis by (simp add: csv_column_step_simps tsv_column_step_simps)
  next
    case (Inr vs)
    let ?c1 = "dict_set c i (Values vs)"
    let ?t1 = "dict_set (dict_set (dict_set t i (Values vs)) ''dataframe'' (Frame df))
                 ''headers'' (Index (df_columns df))"
    have "map_of ?t1 = reserved_set df ((map_of t)(i \<mapsto> Values vs))"
      by (simp add: map_of_dict_set reserved_set_def)
    also have "\<dots> = reserved_set df (map_of ?c1)"
      using Cons.prems by (simp add: reserved_set_step map_of_dict_set)
    finally have "map_of ?t1 = reserved_set df (map_of ?c1)" .
    from Cons.IH[OF this] Inr show ?thesis
      by (simp add: csv_column_step_simps tsv_column_step_simps)
  qed
qed

lemma columns_related_first:
  assumes "cols \<noteq> []"
  shows "rel_sum (=) (\<lambda>c' t'. map_of t' = reserved_set df (map_of c'))
           (for_each (csv_column_step df) [] cols) (for_each (tsv_column_step df) [] cols)"
proof -
  from assms obtain i rest where cols: "cols = i # rest" by (cases cols) simp_all
  show ?thesis
  proof (cases "df_tolist df i")
    case (Inl e)
    with cols show ?thesis by (simp add: csv_column_step_simps tsv_column_step_simps)
  next
    case (Inr vs)
    let ?c1 = "dict_set [] i (Values vs)"
    let ?t1 = "dict_set (dict_set (dict_set [] i (Values vs)) ''dataframe'' (Frame df))
                 ''headers'' (Index (df_columns df))"
    have "map_of ?t1 = reserved_set df (map_of ?c1)"
      by (auto simp: map_of_dict_set reserved_set_def fun_eq_iff)
    from columns_related[OF this, of rest] Inr cols show ?thesis
      by (simp add: csv_column_step_simps tsv_column_step_simps)
  qed
qed

lemma csv_tsv_maps:
  assumes "df_columns df \<noteq> []"
  shows "map_sum id map_of (CSVParser_parse_file df) = map_sum id map_of (TSVParser_parse_file df)"
proof -
  note r = columns_related_first[OF assms, of df]
  show ?thesis
  proof (cases "for_each (csv_column_step df) [] (df_columns df)")
    case (Inl e)
    with r show ?thesis
      by (cases "for_each (tsv_column_step df) [] (df_columns df)")
         (simp_all add: CSVParser_parse_file_def TSVParser_parse_file_def)
  next
    case (Inr c)
    with r show ?thesis
      by (cases "for_each (tsv_column_step df) [] (df_columns df)")
         (simp_all add: CSVParser_parse_file_def TSVParser_parse_file_def map_of_dict_set
            reserved_set_def)
  qed
qed

lemma csv_columns_result:
  assumes "distinct (df_columns df)" and "set cols \<subseteq> set (df_columns df)"
  shows "\<exists>c'. for_each (csv_column_step df) c cols = Inr c'
           \<and> (\<forall>i. map_of c' i =
                 (if i \<in> set cols then map_option Values (map_of df i) else map_of c i))"
  using assms(2)
proof (induction cols arbitrary: c)
  case Nil
  then show ?case by simp
next
  case (Cons j cols)
  from Cons.prems have "j \<in> fst ` set df" by (auto simp: df_columns_def)
  then obtain vs where m: "(j, vs) \<in> set df" by auto
  with assms(1) have l: "df_tolist df j = Inr vs" by (rule df_tolist_distinct)
  from assms(1) m have mo: "map_of df j = Some vs" by (simp add: df_columns_def)
  from Cons.prems have "set cols \<subseteq> set (df_columns df)" by simp
  from Cons.IH[OF this, of "dict_set c j (Values vs)"]
  obtain c' where r: "for_each (csv_column_step df) (dict_set c j (Values vs)) cols = Inr c'"
    and v: "\<And>i. map_of c' i =
                 (if i \<in> set cols then map_option Values (map_of df i)
                  else map_of (dict_set c j (Values vs)) i)"
    by blast
  have "for_each (csv_column_step df) c (j # cols) = Inr c'"
    using l r by (simp add: csv_column_step_simps)
  moreover have "\<forall>i. map_of c' i =
                 (if i \<in> set (j # cols) then map_option Values (map_of df i) else map_of c i)"
    using v mo by (simp add: map_of_dict_set)
  ultimately show ?case by blast
qed

lemma CSVParser_parse_file_distinct:
  assumes "distinct (df_columns df)"
  shows "\<exists>c. CSVParser_parse_file df = Inr c
           \<and> map_of c ''headers'' = Some (Index (df_columns df))
           \<and> map_of c ''dataframe'' = Some (Frame df)
           \<and> (\<forall>i vs. (i, vs) \<in> set df \<and> i \<noteq> ''headers'' \<and> i \<noteq> ''dataframe''
                 \<longrightarrow> map_of c i = Some (Values vs))"
proof -
  from csv_columns_result[OF assms subset_refl, of "[]"]
  obtain c' where r: "for_each (csv_column_step df) [] (df_columns df) = Inr c'"
    and v: "\<And>i. map_of c' i =
              (if i \<in> set (df_columns df) then map_option Values (map_of df i) else None)"
    by auto
  let ?c = "dict_set (dict_set c' ''dataframe'' (Frame df)) ''headers'' (Index (df_columns df))"
  have "CSVParser_parse_file df = Inr ?c"
    using r by (simp add: CSVParser_parse_file_def)
  moreover have "map_of ?c ''headers'' = Some (Index (df_columns df))"
    and "map_of ?c ''dataframe'' = Some (Frame df)"
    by (simp_all add: map_of_dict_set)
  moreover have "\<forall>i vs. (i, vs) \<in> set df \<and> i \<noteq> ''headers'' \<and> i \<noteq> ''dataframe''
                 \<longrightarrow> map_of ?c i = Some (Values vs)"
    using assms v by (auto simp: map_of_dict_set df_columns_def rev_image_eqI)
  ultimately show ?thesis by blast
qed

text \<open>
  C5. For the same data frame with at least one column (a file without a column is
  rejected by the reader) the CSV and the TSV extractor give the same mapping, or raise
  the same exception. When the column labels are distinct, as the reader makes them,
  both return; the two results have the same entry under every key, \<^verbatim>\<open>headers\<close> is the
  column index in both, and every column not named \<^verbatim>\<open>headers\<close> or \<^verbatim>\<open>dataframe\<close> is
  mapped to its values in both.
\<close>

theorem csv_tsv_equivalent:
  assumes "df_columns df \<noteq> []"
  shows "map_sum id map_of (CSVParser_parse_file df) = map_sum id map_of (TSVParser_parse_file df)
       \<and> (distinct (df_columns df) \<longrightarrow>
            (\<exists>c t. CSVParser_parse_file df = Inr c \<and> TSVParser_parse_file df = Inr t
               \<and> (\<forall>i. map_of c i = map_of t i)
               \<and> map_of c ''headers'' = Some (Index (df_columns df))
               \<and> map_of t ''headers'' = Some (Index (df_columns df))
               \<and> (\<forall>i vs. (i, vs) \<in> set df \<and> i \<noteq> ''headers'' \<and> i \<noteq> ''dataframe''
                     \<longrightarrow> map_of c i = Some (Values vs) \<and> map_of t i = Some (Values vs))))"
proof (intro conjI impI)
  show m: "map_sum id map_of (CSVParser_parse_file df)
             = map_sum id map_of (TSVParser_parse_file df)"
    using assms by (rule csv_tsv_maps)
  assume "distinct (df_columns df)"
  from CSVParser_parse_file_distinct[OF this]
  obtain c where c: "CSVParser_parse_file df = Inr c"
    and h: "map_of c ''headers'' = Some (Index (df_columns df))"
    and v: "\<forall>i vs. (i, vs) \<in> set df \<and> i \<noteq> ''headers'' \<and> i \<noteq> ''dataframe''
                 \<longrightarrow> map_of c i = Some (Values vs)"
    by blast
  from m c obtain t where t: "TSVParser_parse_file df = Inr t" and e: "map_of c = map_of t"
    by (cases "TSVParser_parse_file df") simp_all
  from h v e have "(\<forall>i. map_of c i = map_of t i)
               \<and> map_of c ''headers'' = Some (Index (df_columns df))
               \<and> map_of t ''headers'' = Some (Index (df_columns df))
               \<and> (\<forall>i vs. (i, vs) \<in> set df \<and> i \<noteq> ''headers'' \<and> i \<noteq> ''dataframe''
                     \<longrightarrow> map_of c i = Some (Values vs) \<and> map_of t i = Some (Values vs))"
    by simp
  with c t show "\<exists>c t. CSVParser_parse_file df = Inr c \<and> TSVParser_parse_file df = Inr t
               \<and> (\<forall>i. map_of c i = map_of t i)
               \<and> map_of c ''headers'' = Some (Index (df_columns df))
               \<and> map_of t ''headers'' = Some (Index (df_columns df))
               \<and> (\<forall>i vs. (i, vs) \<in> set df \<and> i \<noteq> ''headers'' \<and> i \<noteq> ''dataframe''
                     \<longrightarrow> map_of c i = Some (Values vs) \<and> map_of t i = Some (Values vs))"
    by blast
qed

lemma two_column_frame_csv:
  "CSVParser_parse_file two_column_frame =
     Inr [(''a'', Values [1, 2]), (''b'', Values [3, 4]),
          (''dataframe'', Frame two_column_frame), (''headers'', Index [''a'', ''b''])]"
  by (simp add: CSVParser_parse_file_def csv_column_step_def df_tolist_def df_columns_def
      two_column_frame_def)

lemma two_column_frame_tsv:
  "TSVParser_parse_file two_column_frame =
     Inr [(''a'', Values [1, 2]), (''dataframe'', Frame two_column_frame),
          (''headers'', Index [''a'', ''b'']), (''b'', Values [3, 4])]"
  by (simp add: TSVParser_parse_file_def tsv_column_step_def df_tolist_def df_columns_def
      two_column_frame_def)

text \<open>
  A frame without columns, which the reader never returns, is where the two differ: the
  TSV extractor writes \<^verbatim>\<open>dataframe\<close> and \<^verbatim>\<open>headers\<close> inside the loop over the columns.
\<close>

lemma empty_frame_results:
  "CSVParser_parse_file [] = Inr [(''dataframe'', Frame []), (''headers'', Index [])]"
  "TSVParser_parse_file [] = Inr []"
  by (simp_all add: CSVParser_parse_file_def TSVParser_parse_file_def df_columns_def)

theorem csv_tsv_equivalent_witness:
  "df_columns two_column_frame = [''a'', ''b'']
   \<and> distinct (df_columns two_column_frame)
   \<and> CSVParser_parse_file two_column_frame =
       Inr [(''a'', Values [1, 2]), (''b'', Values [3, 4]),
            (''dataframe'', Frame two_column_frame), (''headers'', Index [''a'', ''b''])]
   \<and> TSVParser_parse_file two_column_frame =
       Inr [(''a'', Values [1, 2]), (''dataframe'', Frame two_column_frame),
            (''headers'', Index [''a'', ''b'']), (''b'', Values [3, 4])]
   \<and> map_sum id map_of (CSVParser_parse_file two_column_frame)
       = map_sum id map_of (TSVParser_parse_file two_column_frame)
   \<and> (\<exists>c t. CSVParser_parse_file two_column_frame = Inr c
         \<and> TSVParser_parse_file two_column_frame = Inr t
         \<and> map_of c ''headers'' = Some (Index [''a'', ''b''])
         \<and> map_of t ''headers'' = Some (Index [''a'', ''b''])
         \<and> map_of c ''b'' = Some (Values [3, 4]) \<and> map_of t ''b'' = Some (Values [3, 4]))"
proof -
  have a: "df_columns two_column_frame = [''a'', ''b'']"
    by (simp add: df_columns_def two_column_frame_def)
  then have n: "df_columns two_column_frame \<noteq> []" and d: "distinct (df_columns two_column_frame)"
    by simp_all
  have b: "(''b'', [3, 4]) \<in> set two_column_frame \<and> ''b'' \<noteq> ''headers'' \<and> ''b'' \<noteq> ''dataframe''"
    by (simp add: two_column_frame_def)
  note t = csv_tsv_equivalent[OF n]
  from t[THEN conjunct2, THEN mp, OF d] b a
  have "\<exists>c t. CSVParser_parse_file two_column_frame = Inr c
         \<and> TSVParser_parse_file two_column_frame = Inr t
         \<and> map_of c ''headers'' = Some (Index [''a'', ''b''])
         \<and> map_of t ''headers'' = Some (Index [''a'', ''b''])
         \<and> map_of c ''b'' = Some (Values [3, 4]) \<and> map_of t ''b'' = Some (Values [3, 4])"
    by (metis (no_types, lifting))
  with a d t[THEN conjunct1] two_column_frame_csv two_column_frame_tsv show ?thesis
    by (intro conjI)
qed

text \<open>
  C10. When the data frame has a column named \<^verbatim>\<open>headers\<close> or \<^verbatim>\<open>dataframe\<close>, the entry
  of the CSV result under that name is not the value list of the column, nor any value
  list: \<^verbatim>\<open>dataframe\<close> is mapped to the frame and \<^verbatim>\<open>headers\<close> to the column index, both
  written after the columns.
\<close>

theorem csv_reserved_column_overwritten:
  assumes "distinct (df_columns df)" and "(k, vs) \<in> set df"
    and "k = ''headers'' \<or> k = ''dataframe''"
  shows "\<exists>c. CSVParser_parse_file df = Inr c
           \<and> df_tolist df k = Inr vs
           \<and> map_of c k \<noteq> Some (Values vs)
           \<and> (\<forall>ws. map_of c k \<noteq> Some (Values ws))
           \<and> map_of c ''headers'' = Some (Index (df_columns df))
           \<and> map_of c ''dataframe'' = Some (Frame df)"
proof -
  from CSVParser_parse_file_distinct[OF assms(1)]
  obtain c where c: "CSVParser_parse_file df = Inr c"
    and h: "map_of c ''headers'' = Some (Index (df_columns df))"
    and f: "map_of c ''dataframe'' = Some (Frame df)"
    by blast
  have l: "df_tolist df k = Inr vs"
    using assms(1,2) by (rule df_tolist_distinct)
  from assms(3) h f have "\<forall>ws. map_of c k \<noteq> Some (Values ws)" by auto
  with c l h f show ?thesis by blast
qed

theorem csv_reserved_column_overwritten_witness:
  "distinct (df_columns headers_column_frame)
   \<and> (''headers'', [10, 20]) \<in> set headers_column_frame
   \<and> CSVParser_parse_file headers_column_frame =
       Inr [(''id'', Values [1, 2]), (''headers'', Index [''id'', ''headers'']),
            (''dataframe'', Frame headers_column_frame)]
   \<and> (\<exists>c. CSVParser_parse_file headers_column_frame = Inr c
         \<and> df_tolist headers_column_frame ''headers'' = Inr [10, 20]
         \<and> map_of c ''headers'' \<noteq> Some (Values [10, 20])
         \<and> map_of c ''headers'' = Some (Index (df_columns headers_column_frame)))"
proof -
  have d: "distinct (df_columns headers_column_frame)"
    by (simp add: df_columns_def headers_column_frame_def)
  have m: "(''headers'', [10, 20]) \<in> set headers_column_frame"
    by (simp add: headers_column_frame_def)
  have v: "CSVParser_parse_file headers_column_frame =
       Inr [(''id'', Values [1, 2]), (''headers'', Index [''id'', ''headers'']),
            (''dataframe'', Frame headers_column_frame)]"
    by (simp add: CSVParser_parse_file_def csv_column_step_def df_tolist_def df_columns_def
        headers_column_frame_def)
  have "\<exists>c. CSVParser_parse_file headers_column_frame = Inr c
         \<and> df_tolist headers_column_frame ''headers'' = Inr [10, 20]
         \<and> map_of c ''headers'' \<noteq> Some (Values [10, 20])
         \<and> map_of c ''headers'' = Some (Index (df_columns headers_column_frame))"
    using csv_reserved_column_overwritten[OF d m] by blast
  with d m v show ?thesis by (intro conjI)
qed

end
